theory Spec2Isabelle
  imports Main "HOL-Library.Word" "HOL-Library.List_Lexorder" "HOL-Library.Sublist"
begin

section \<open>Strings and the built-ins used by \<open>main.js\<close>\<close>

text \<open>
  A JavaScript string is a sequence of 16-bit code units.  The built-ins that
  \<open>main.js\<close> calls on strings, arrays and \<open>Set\<close> objects are written out here
  as far as the program uses them.
\<close>

type_synonym code_unit = "16 word"
type_synonym js_string = "code_unit list"

text \<open>Writing an ASCII literal as a JavaScript string.\<close>

definition ascii :: "string \<Rightarrow> js_string" where
  "ascii s = map (\<lambda>c. of_nat (of_char c)) s"

text \<open>
  String comparison as the default comparator of \<open>Array.prototype.sort\<close> performs
  it: a proper prefix is smaller, otherwise the first differing code unit
  decides, compared as an unsigned number.
\<close>

fun IsLessThan :: "js_string \<Rightarrow> js_string \<Rightarrow> bool" where
  "IsLessThan [] [] = False"
| "IsLessThan [] (y # ys) = True"
| "IsLessThan (x # xs) [] = False"
| "IsLessThan (x # xs) (y # ys) = (if x = y then IsLessThan xs ys else x < y)"

definition SortCompare :: "js_string \<Rightarrow> js_string \<Rightarrow> int" where
  "SortCompare x y = (if IsLessThan x y then - 1 else if IsLessThan y x then 1 else 0)"

text \<open>
  \<open>Array.prototype.sort()\<close> without a comparator, on an array of strings.  The
  language requires a stable sort; it is written here as insertion sort.
\<close>

fun insert_sorted :: "js_string \<Rightarrow> js_string list \<Rightarrow> js_string list" where
  "insert_sorted x [] = [x]"
| "insert_sorted x (y # ys) =
     (if SortCompare x y \<le> 0 then x # y # ys else y # insert_sorted x ys)"

definition Array_sort :: "js_string list \<Rightarrow> js_string list" where
  "Array_sort xs = foldr insert_sorted xs []"

text \<open>
  A \<open>Set\<close> object iterates its members in insertion order and holds no value
  twice, so it is a list without repetition.  \<open>new Set(iterable)\<close> adds the
  elements one by one; adding a member that is already present changes nothing
  (the first occurrence keeps its place).
\<close>

definition Set_add :: "'a list \<Rightarrow> 'a \<Rightarrow> 'a list" where
  "Set_add s v = (if v \<in> set s then s else s @ [v])"

definition Set_new :: "'a list \<Rightarrow> 'a list" where
  "Set_new iterable = foldl Set_add [] iterable"

text \<open>
  \<open>String.prototype.trim\<close> removes white space and line terminators from both
  ends of the string.
\<close>

definition is_white_space :: "code_unit \<Rightarrow> bool" where
  "is_white_space c \<longleftrightarrow>
     c \<in> set [0x0009, 0x000A, 0x000B, 0x000C, 0x000D, 0x0020, 0x00A0, 0x1680,
              0x2000, 0x2001, 0x2002, 0x2003, 0x2004, 0x2005, 0x2006, 0x2007,
              0x2008, 0x2009, 0x200A, 0x2028, 0x2029, 0x202F, 0x205F, 0x3000,
              0xFEFF]"

definition trim :: "js_string \<Rightarrow> js_string" where
  "trim s = rev (dropWhile is_white_space (rev (dropWhile is_white_space s)))"

text \<open>
  \<open>String.prototype.toLowerCase\<close> follows the Unicode case mapping tables, which
  are not part of the program: the functions below take it as the parameter
  \<open>toLowerCase\<close>.  On strings of ASCII code units it is the following function.
\<close>

definition ascii_toLowerCase :: "js_string \<Rightarrow> js_string" where
  "ascii_toLowerCase s = map (\<lambda>c. if 0x41 \<le> c \<and> c \<le> 0x5A then c + 0x20 else c) s"

section \<open>The class \<open>CacheManagement\<close>\<close>

record CacheManagement =
  set_js :: "js_string list"

definition constructor :: CacheManagement where
  "constructor = \<lparr>set_js = Set_new []\<rparr>"

definition sort_priv :: "CacheManagement \<Rightarrow> CacheManagement" where
  "sort_priv this = this\<lparr>set_js := Set_new (Array_sort (set_js this))\<rparr>"

definition CacheManagement_add :: "CacheManagement \<Rightarrow> js_string list \<Rightarrow> CacheManagement" where
  "CacheManagement_add this fetchedArray =
     sort_priv (this\<lparr>set_js := Set_new (set_js this @ fetchedArray)\<rparr>)"

text \<open>
  \<open>search\<close> walks the set with \<open>forEach\<close> and pushes every match onto
  \<open>results\<close>.  It returns the results together with the object, which it
  leaves as it is.
\<close>

definition search_step ::
  "(js_string \<Rightarrow> js_string) \<Rightarrow> js_string \<Rightarrow> js_string list \<Rightarrow> js_string \<Rightarrow> js_string list" where
  "search_step toLowerCase query results v =
     (if prefix (toLowerCase query) (toLowerCase v) then results @ [v] else results)"

definition CacheManagement_search ::
  "(js_string \<Rightarrow> js_string) \<Rightarrow> CacheManagement \<Rightarrow> js_string \<Rightarrow> js_string list \<times> CacheManagement" where
  "CacheManagement_search toLowerCase this query =
     (foldl (search_step toLowerCase query) [] (set_js this), this)"

text \<open>A run of \<open>add\<close> calls on a fresh cache.\<close>

definition add_calls :: "js_string list list \<Rightarrow> CacheManagement" where
  "add_calls calls = foldl CacheManagement_add constructor calls"

section \<open>The page: cache, collaborators and the handler \<open>search\<close>\<close>

text \<open>
  What the handler does besides changing the cache is a sequence of calls to
  its collaborators: the console, the error message area, the remote source
  and the option list.  The calls are recorded in order, next to the calls of
  the cache's own methods.
\<close>

datatype js_error = TypeError | SyntaxError | DOMException | Error string

datatype call =
    Console_log string
  | Console_warn string
  | Console_error string js_error
  | ShowErrorMessage string
  | Fetch js_string
  | Cache_search js_string
  | Cache_add "js_string list"
  | FillOptions "js_string list"

record page =
  cache :: CacheManagement
  trace :: "call list"

definition emit :: "call \<Rightarrow> page \<Rightarrow> page" where
  "emit c w = w\<lparr>trace := trace w @ [c]\<rparr>"

definition showErrorMessage :: "string \<Rightarrow> page \<Rightarrow> page" where
  "showErrorMessage msg w = emit (ShowErrorMessage msg) w"

text \<open>
  \<open>fillOptions\<close> reads the set of the cache and rebuilds the option list from
  it; the record of the call carries the values read.
\<close>

definition fillOptions :: "page \<Rightarrow> page" where
  "fillOptions w = emit (FillOptions (set_js (cache w))) w"

text \<open>
  What the remote source does for one request is an input of the model: the
  promise of \<open>fetch\<close> rejects, or it resolves to a response with its \<open>ok\<close> flag
  and a body whose parsing by \<open>response.json()\<close> rejects or yields the data.
  Following the contract of the remote source, the data of a response is an
  array of strings.
\<close>

datatype json_outcome = Json_rejects js_error | Json_resolves "js_string list"

datatype fetch_outcome = Fetch_rejects js_error | Fetch_resolves bool json_outcome

text \<open>
  The value \<open>fetchData\<close> returns: the parsed data, or, from its \<open>catch\<close> block,
  the error object caught.
\<close>

datatype fetched = Returned_data "js_string list" | Returned_error js_error

text \<open>The \<open>try\<close> block of \<open>fetchData\<close>; \<open>Inl\<close> is a throw or a rejected \<open>await\<close>.\<close>

definition fetchData_try :: "fetch_outcome \<Rightarrow> js_error + js_string list" where
  "fetchData_try outcome =
     (case outcome of
        Fetch_rejects error \<Rightarrow> Inl error
      | Fetch_resolves ok body \<Rightarrow>
          if \<not> ok then Inl (Error ''fetch was blocked due to CORS policy'')
          else (case body of
                  Json_rejects error \<Rightarrow> Inl error
                | Json_resolves data \<Rightarrow> Inr data))"

definition fetchData :: "fetch_outcome \<Rightarrow> js_string \<Rightarrow> page \<Rightarrow> fetched \<times> page" where
  "fetchData outcome searchString w =
     (let w1 = emit (Fetch searchString) w in
      case fetchData_try outcome of
        Inr data \<Rightarrow> (Returned_data data, w1)
      | Inl error \<Rightarrow>
          (Returned_error error,
           showErrorMessage ''fetchData: The server is down or unreachable''
             (emit (Console_error ''fetchData:'' error) w1)))"

text \<open>
  \<open>names.length\<close>: the number of elements of an array; an error object has no
  such property and the access yields \<open>undefined\<close> (\<open>None\<close>).  \<open>undefined > 0\<close>
  is false.
\<close>

fun length_prop :: "fetched \<Rightarrow> nat option" where
  "length_prop (Returned_data data) = Some (length data)"
| "length_prop (Returned_error error) = None"

fun greater_than_zero :: "nat option \<Rightarrow> bool" where
  "greater_than_zero None = False"
| "greater_than_zero (Some n) = (n > 0)"

text \<open>
  The \<open>try\<close> block of \<open>search\<close>.  \<open>cache.add\<close> spreads its argument, which throws
  a \<open>TypeError\<close> on a value that is not iterable.
\<close>

definition search_try :: "fetch_outcome \<Rightarrow> js_string \<Rightarrow> page \<Rightarrow> (js_error \<times> page) + page" where
  "search_try outcome val w =
     (let (names, w1) = fetchData outcome val w in
      if greater_than_zero (length_prop names) then
        (let w2 = emit (Console_warn ''Fetched from server'') w1 in
         case names of
           Returned_data data \<Rightarrow>
             Inr (fillOptions
               (emit (Cache_add data) (w2\<lparr>cache := CacheManagement_add (cache w2) data\<rparr>)))
         | Returned_error error \<Rightarrow> Inl (TypeError, w2))
      else Inr w1)"

text \<open>
  The handler \<open>search\<close>, applied to the value of the input field.  The result is
  \<open>Inr\<close> when the promise of the \<open>async\<close> function is fulfilled and \<open>Inl\<close> when it
  is rejected.
\<close>

definition search ::
  "(js_string \<Rightarrow> js_string) \<Rightarrow> fetch_outcome \<Rightarrow> js_string \<Rightarrow> page \<Rightarrow> js_error + page" where
  "search toLowerCase outcome value w =
     (let val = trim value in
      if val = [] then Inr w
      else
        (let (names, this) = CacheManagement_search toLowerCase (cache w) val;
             w1 = emit (Cache_search val) (w\<lparr>cache := this\<rparr>) in
         if length names > 0 then Inr (emit (Console_log ''Already in cache'') w1)
         else
           (case search_try outcome val w1 of
              Inr w2 \<Rightarrow> Inr w2
            | Inl (error, w2) \<Rightarrow>
                Inr (showErrorMessage ''Server may be unavailable. Please try again later.''
                  (emit (Console_error ''Search error:'' error) w2)))))"

text \<open>
  Reading the record of calls: the calls made from page \<open>w\<close> to page \<open>w'\<close>, and
  among a list of calls the fetches, the merges into the cache, the rebuilds of
  the option list and the messages shown.
\<close>

definition calls_during :: "page \<Rightarrow> page \<Rightarrow> call list" where
  "calls_during w w' = drop (length (trace w)) (trace w')"

fun is_fetch :: "call \<Rightarrow> bool" where
  "is_fetch (Fetch q) = True"
| "is_fetch c = False"

fun is_merge :: "call \<Rightarrow> bool" where
  "is_merge (Cache_add d) = True"
| "is_merge c = False"

fun is_rebuild :: "call \<Rightarrow> bool" where
  "is_rebuild (FillOptions d) = True"
| "is_rebuild c = False"

fun is_cache_search :: "call \<Rightarrow> bool" where
  "is_cache_search (Cache_search q) = True"
| "is_cache_search c = False"

fun message_of :: "call \<Rightarrow> string option" where
  "message_of (ShowErrorMessage m) = Some m"
| "message_of c = None"

definition messages :: "call list \<Rightarrow> string list" where
  "messages cs = List.map_filter message_of cs"

text \<open>
  The remote fetch fails: the call rejects, the response has a non-success
  status, or parsing the body throws.
\<close>

fun fetch_fails :: "fetch_outcome \<Rightarrow> bool" where
  "fetch_fails (Fetch_rejects error) = True"
| "fetch_fails (Fetch_resolves False body) = True"
| "fetch_fails (Fetch_resolves True (Json_rejects error)) = True"
| "fetch_fails (Fetch_resolves True (Json_resolves data)) = False"

section \<open>Timers and \<open>debounce\<close>\<close>

text \<open>
  Time is counted in milliseconds.  The host keeps the list of scheduled
  callbacks; each has the handle \<open>setTimeout\<close> returned, the time at which it is
  due, and the event its callback \<open>() => func(event)\<close> passes on.  The state
  also has the two variables of the closure that \<open>debounce\<close> returns, \<open>wait\<close>
  and \<open>timeout\<close> (\<open>None\<close> is \<open>undefined\<close>), and the executions of \<open>func\<close> so
  far, each with its time and argument.  A callback runs at the time it is due.
\<close>

record 'e timer =
  handle :: nat
  due :: nat
  event :: 'e

record 'e debounce_state =
  wait :: int
  timeout :: "nat option"
  pending :: "'e timer list"
  next_handle :: nat
  executed :: "(nat \<times> 'e) list"

text \<open>
  The host takes the delay of \<open>setTimeout\<close> as a signed 32-bit integer: the
  number wraps around modulo \<open>2 ^ 32\<close>, and a negative delay counts as zero.
  (The longer delay that the host gives to deeply nested timers does not apply:
  the debounced function is called from event listeners, not from timer
  callbacks.)
\<close>

definition timer_delay :: "int \<Rightarrow> nat" where
  "timer_delay ms = (let n = sint (word_of_int ms :: 32 word) in if n < 0 then 0 else nat n)"

definition setTimeout :: "'e \<Rightarrow> int \<Rightarrow> nat \<Rightarrow> 'e debounce_state \<Rightarrow> nat \<times> 'e debounce_state" where
  "setTimeout ev ms now s =
     (next_handle s,
      s\<lparr>pending := pending s @
          [\<lparr>handle = next_handle s, due = now + timer_delay ms, event = ev\<rparr>],
        next_handle := next_handle s + 1\<rparr>)"

fun clearTimeout :: "nat option \<Rightarrow> 'e debounce_state \<Rightarrow> 'e debounce_state" where
  "clearTimeout None s = s"
| "clearTimeout (Some h) s = s\<lparr>pending := filter (\<lambda>t. handle t \<noteq> h) (pending s)\<rparr>"

text \<open>
  \<open>debounce(func, wait = 250)\<close>: the closure as created, with \<open>wait\<close> the
  argument, or 250 when there is none, and \<open>timeout\<close> not yet assigned.
\<close>

definition debounce :: "int option \<Rightarrow> 'e debounce_state" where
  "debounce w =
     \<lparr>wait = (case w of None \<Rightarrow> 250 | Some ms \<Rightarrow> ms),
      timeout = None, pending = [], next_handle = 1, executed = []\<rparr>"

text \<open>The function that \<open>debounce\<close> returns, called at time \<open>now\<close> with \<open>ev\<close>.\<close>

definition debounced :: "nat \<Rightarrow> 'e \<Rightarrow> 'e debounce_state \<Rightarrow> 'e debounce_state" where
  "debounced now ev s =
     (let s1 = clearTimeout (timeout s) s;
          (h, s2) = setTimeout ev (wait s) now s1
      in s2\<lparr>timeout := Some h\<rparr>)"

text \<open>
  The event loop up to time \<open>now\<close>: the callbacks due by then run, earliest
  first, and leave the list.
\<close>

definition advance :: "nat \<Rightarrow> 'e debounce_state \<Rightarrow> 'e debounce_state" where
  "advance now s =
     s\<lparr>pending := filter (\<lambda>t. now < due t) (pending s),
       executed := executed s @
         map (\<lambda>t. (due t, event t)) (sort_key due (filter (\<lambda>t. due t \<le> now) (pending s)))\<rparr>"

text \<open>Invocations of the debounced function, each with its time and event.\<close>

fun invocations :: "(nat \<times> 'e) list \<Rightarrow> 'e debounce_state \<Rightarrow> 'e debounce_state" where
  "invocations [] s = s"
| "invocations ((t, ev) # rest) s = invocations rest (debounced t ev (advance t s))"

text \<open>
  A burst for the wait \<open>ms\<close>: at least one invocation, in the order of time,
  each less than \<open>ms\<close> after the one before.
\<close>

fun burst :: "int \<Rightarrow> (nat \<times> 'e) list \<Rightarrow> bool" where
  "burst ms [] = False"
| "burst ms [c] = True"
| "burst ms ((t1, e1) # (t2, e2) # rest) =
     (t1 \<le> t2 \<and> int t2 < int t1 + ms \<and> burst ms ((t2, e2) # rest))"

text \<open>
  What holds of the closure between invocations: at most one callback is
  scheduled, and \<open>timeout\<close> is its handle.
\<close>

definition closure_inv :: "'e debounce_state \<Rightarrow> bool" where
  "closure_inv s \<longleftrightarrow> pending s = [] \<or> (\<exists>x. pending s = [x] \<and> timeout s = Some (handle x))"

section \<open>Properties of the built-ins\<close>

lemma IsLessThan_less: "IsLessThan x y \<longleftrightarrow> x < y"
  by (induction x y rule: IsLessThan.induct) auto

lemma SortCompare_le: "SortCompare x y \<le> 0 \<longleftrightarrow> x \<le> y"
  by (auto simp: SortCompare_def IsLessThan_less)

lemma insert_sorted_insort: "insert_sorted x ys = insort x ys"
  by (induction ys) (simp_all add: SortCompare_le)

lemma Array_sort_sort: "Array_sort xs = sort xs"
proof -
  have "insert_sorted = insort"
    by (intro ext) (rule insert_sorted_insort)
  then show ?thesis
    by (simp add: Array_sort_def sort_key_def)
qed

lemma sorted_wrt_IsLessThan: "sorted_wrt (\<lambda>a b. \<not> IsLessThan b a) xs \<longleftrightarrow> sorted xs"
  by (simp add: IsLessThan_less not_less)

lemma foldl_Set_add_set: "set (foldl Set_add acc xs) = set acc \<union> set xs"
  by (induction xs arbitrary: acc) (auto simp: Set_add_def)

lemma foldl_Set_add_distinct: "distinct acc \<Longrightarrow> distinct (foldl Set_add acc xs)"
  by (induction xs arbitrary: acc) (auto simp: Set_add_def)

lemma foldl_Set_add_id: "distinct (acc @ xs) \<Longrightarrow> foldl Set_add acc xs = acc @ xs"
  by (induction xs arbitrary: acc) (auto simp: Set_add_def)

lemma set_Set_new: "set (Set_new xs) = set xs"
  by (simp add: Set_new_def foldl_Set_add_set)

lemma distinct_Set_new: "distinct (Set_new xs)"
  by (simp add: Set_new_def foldl_Set_add_distinct)

lemma Set_new_distinct_id: "distinct xs \<Longrightarrow> Set_new xs = xs"
  using foldl_Set_add_id [of "[]" xs] by (simp add: Set_new_def)

section \<open>The cache after \<open>add\<close>\<close>

lemma add_set_js:
  "set_js (CacheManagement_add this xs) = sort (Set_new (set_js this @ xs))"
  by (simp add: CacheManagement_add_def sort_priv_def Array_sort_sort
      Set_new_distinct_id distinct_Set_new)

lemma add_set: "set (set_js (CacheManagement_add this xs)) = set (set_js this) \<union> set xs"
  by (simp add: add_set_js set_Set_new)

lemma add_sorted: "sorted (set_js (CacheManagement_add this xs))"
  by (simp add: add_set_js)

lemma add_distinct: "distinct (set_js (CacheManagement_add this xs))"
  by (simp add: add_set_js distinct_Set_new)

lemma cache_eqI:
  fixes c c' :: CacheManagement
  shows "set_js c = set_js c' \<Longrightarrow> c = c'"
  by simp

lemma foldl_add_set:
  "set (set_js (foldl CacheManagement_add this calls)) =
     set (set_js this) \<union> \<Union> (set ` set calls)"
  by (induction calls arbitrary: this) (auto simp: add_set)

lemma foldl_add_sorted_distinct:
  "sorted (set_js this) \<and> distinct (set_js this) \<Longrightarrow>
   sorted (set_js (foldl CacheManagement_add this calls)) \<and>
   distinct (set_js (foldl CacheManagement_add this calls))"
  by (induction calls arbitrary: this) (simp_all add: add_sorted add_distinct)

lemma constructor_set_js: "set_js constructor = []"
  by (simp add: constructor_def Set_new_def)

lemma add_calls_sorted_distinct:
  "sorted (set_js (add_calls calls)) \<and> distinct (set_js (add_calls calls))"
  unfolding add_calls_def
  by (rule foldl_add_sorted_distinct) (simp add: constructor_set_js)

lemma add_calls_set: "set (set_js (add_calls calls)) = \<Union> (set ` set calls)"
  by (simp add: add_calls_def foldl_add_set constructor_set_js)

text \<open>
  C1.  After any sequence of \<open>add\<close> calls on a fresh cache, iterating the entries
  yields them in non-decreasing order of the code-unit comparison, no entry
  twice, and the entries are exactly the strings passed in by some call.  Two
  sequences of calls that pass in the same strings, however often and in
  whatever grouping, leave the same cache.
\<close>

theorem add_calls_sorted_dedup:
  "sorted_wrt (\<lambda>a b. \<not> IsLessThan b a) (set_js (add_calls calls)) \<and>
   distinct (set_js (add_calls calls)) \<and>
   set (set_js (add_calls calls)) = \<Union> (set ` set calls) \<and>
   (\<Union> (set ` set calls') = \<Union> (set ` set calls) \<longrightarrow>
      add_calls calls' = add_calls calls)"
proof -
  have "add_calls calls' = add_calls calls"
    if same: "\<Union> (set ` set calls') = \<Union> (set ` set calls)"
  proof (rule cache_eqI, rule sorted_distinct_set_unique)
    show "set (set_js (add_calls calls')) = set (set_js (add_calls calls))"
      using same by (simp only: add_calls_set)
  qed (simp_all add: add_calls_sorted_distinct)
  then show ?thesis
    using add_calls_sorted_distinct [of calls] add_calls_set [of calls]
    by (simp add: sorted_wrt_IsLessThan)
qed

theorem add_calls_sorted_dedup_witness:
  "\<Union> (set ` set [[ascii ''Go'', ascii ''C'']]) =
     \<Union> (set ` set [[ascii ''C'', ascii ''Go'', ascii ''C''], [ascii ''Go'']]) \<and>
   add_calls [[ascii ''Go'', ascii ''C'']] =
     add_calls [[ascii ''C'', ascii ''Go'', ascii ''C''], [ascii ''Go'']] \<and>
   set_js (add_calls [[ascii ''C'', ascii ''Go'', ascii ''C''], [ascii ''Go'']]) =
     [ascii ''C'', ascii ''Go'']"
proof -
  have same: "\<Union> (set ` set [[ascii ''Go'', ascii ''C'']]) =
      \<Union> (set ` set [[ascii ''C'', ascii ''Go'', ascii ''C''], [ascii ''Go'']])"
    by auto
  have "set_js (add_calls [[ascii ''C'', ascii ''Go'', ascii ''C''], [ascii ''Go'']]) =
      [ascii ''C'', ascii ''Go'']"
    by code_simp
  with same show ?thesis
    using add_calls_sorted_dedup
      [of "[[ascii ''C'', ascii ''Go'', ascii ''C''], [ascii ''Go'']]" "[[ascii ''Go'', ascii ''C'']]"]
    by blast
qed

text \<open>
  C10.  From any cache, adding \<open>a\<close> and then \<open>b\<close> gives the same cache as adding
  \<open>b\<close> and then \<open>a\<close>, and the same as one \<open>add\<close> of \<open>a\<close> followed by \<open>b\<close> in one
  array.
\<close>

theorem add_order_grouping_irrelevant:
  "CacheManagement_add (CacheManagement_add this a) b =
     CacheManagement_add (CacheManagement_add this b) a \<and>
   CacheManagement_add (CacheManagement_add this a) b = CacheManagement_add this (a @ b)"
proof -
  have eq: "CacheManagement_add c xs = CacheManagement_add c' ys"
    if "set (set_js c) \<union> set xs = set (set_js c') \<union> set ys" for c c' xs ys
    using that
    by (intro cache_eqI sorted_distinct_set_unique)
      (simp_all add: add_sorted add_distinct add_set)
  show ?thesis
    by (intro conjI eq) (auto simp: add_set)
qed

theorem add_order_grouping_irrelevant_witness:
  "CacheManagement_add (CacheManagement_add constructor [ascii ''Go'', ascii ''C''])
      [ascii ''Ada'', ascii ''C''] =
     CacheManagement_add (CacheManagement_add constructor [ascii ''Ada'', ascii ''C''])
      [ascii ''Go'', ascii ''C''] \<and>
   CacheManagement_add constructor ([ascii ''Go'', ascii ''C''] @ [ascii ''Ada'', ascii ''C'']) =
     \<lparr>set_js = [ascii ''Ada'', ascii ''C'', ascii ''Go'']\<rparr>"
proof -
  have "CacheManagement_add constructor ([ascii ''Go'', ascii ''C''] @ [ascii ''Ada'', ascii ''C'']) =
      \<lparr>set_js = [ascii ''Ada'', ascii ''C'', ascii ''Go'']\<rparr>"
    by code_simp
  then show ?thesis
    using add_order_grouping_irrelevant
      [of constructor "[ascii ''Go'', ascii ''C'']" "[ascii ''Ada'', ascii ''C'']"]
    by simp
qed

section \<open>Searching the cache\<close>

lemma foldl_search_step:
  "foldl (search_step toLowerCase query) acc xs =
     acc @ filter (\<lambda>v. prefix (toLowerCase query) (toLowerCase v)) xs"
  by (induction xs arbitrary: acc) (simp_all add: search_step_def)

text \<open>
  C2.  \<open>search\<close> returns the entries whose lower-cased value starts with the
  lower-cased query, in the order in which the cache iterates them; it returns
  no entry when none matches; the cache object is the same afterwards.
\<close>

theorem search_prefix_matches:
  "fst (CacheManagement_search toLowerCase this query) =
     filter (\<lambda>v. prefix (toLowerCase query) (toLowerCase v)) (set_js this) \<and>
   ((\<forall>v \<in> set (set_js this). \<not> prefix (toLowerCase query) (toLowerCase v)) \<longrightarrow>
      fst (CacheManagement_search toLowerCase this query) = []) \<and>
   snd (CacheManagement_search toLowerCase this query) = this"
  by (simp add: CacheManagement_search_def foldl_search_step)

theorem search_prefix_matches_witness:
  "fst (CacheManagement_search ascii_toLowerCase
      \<lparr>set_js = [ascii ''Go'', ascii ''Java'', ascii ''JavaScript'']\<rparr> (ascii ''ja'')) =
     [ascii ''Java'', ascii ''JavaScript''] \<and>
   fst (CacheManagement_search ascii_toLowerCase
      \<lparr>set_js = [ascii ''Go'', ascii ''Java'', ascii ''JavaScript'']\<rparr> (ascii ''x'')) = []"
proof -
  let ?c = "\<lparr>set_js = [ascii ''Go'', ascii ''Java'', ascii ''JavaScript'']\<rparr>"
  have miss: "\<forall>v \<in> set (set_js ?c).
      \<not> prefix (ascii_toLowerCase (ascii ''x'')) (ascii_toLowerCase v)"
    by (simp add: ascii_def ascii_toLowerCase_def)
  have "filter (\<lambda>v. prefix (ascii_toLowerCase (ascii ''ja'')) (ascii_toLowerCase v)) (set_js ?c) =
      [ascii ''Java'', ascii ''JavaScript'']"
    by (simp add: ascii_def ascii_toLowerCase_def)
  with miss show ?thesis
    using search_prefix_matches [of ascii_toLowerCase ?c "ascii ''ja''"]
      search_prefix_matches [of ascii_toLowerCase ?c "ascii ''x''"]
    by simp
qed

text \<open>
  C9.  For the empty query, which lower-cases to the empty string, \<open>search\<close>
  returns every entry of the cache, in the order in which the cache iterates
  them.
\<close>

theorem search_empty_query_all:
  "toLowerCase [] = [] \<Longrightarrow>
   fst (CacheManagement_search toLowerCase this []) = set_js this"
  by (simp add: CacheManagement_search_def foldl_search_step)

theorem search_empty_query_all_witness:
  "ascii_toLowerCase [] = [] \<and>
   fst (CacheManagement_search ascii_toLowerCase
      \<lparr>set_js = [ascii ''Go'', ascii ''Java'', ascii ''JavaScript'']\<rparr> []) =
     [ascii ''Go'', ascii ''Java'', ascii ''JavaScript'']"
proof -
  have h: "ascii_toLowerCase [] = []"
    by (simp add: ascii_toLowerCase_def)
  show ?thesis
    using h search_empty_query_all [of ascii_toLowerCase
        "\<lparr>set_js = [ascii ''Go'', ascii ''Java'', ascii ''JavaScript'']\<rparr>"]
    by simp
qed

section \<open>The handler \<open>search\<close>\<close>

lemma fetch_fails_try: "fetch_fails outcome \<Longrightarrow> \<exists>error. fetchData_try outcome = Inl error"
  by (induction outcome rule: fetch_fails.induct) (simp_all add: fetchData_try_def)

lemma search_miss:
  assumes "trim value \<noteq> []"
    and "fst (CacheManagement_search toLowerCase (cache w) (trim value)) = []"
  shows "search toLowerCase outcome value w =
     (case search_try outcome (trim value) (emit (Cache_search (trim value)) w) of
        Inr w2 \<Rightarrow> Inr w2
      | Inl (error, w2) \<Rightarrow>
          Inr (showErrorMessage ''Server may be unavailable. Please try again later.''
            (emit (Console_error ''Search error:'' error) w2)))"
  using assms by (simp add: search_def Let_def CacheManagement_search_def split: prod.splits)

lemma search_try_failure:
  assumes "fetchData_try outcome = Inl error"
  shows "search_try outcome val w =
     Inr (w\<lparr>trace := trace w @ [Fetch val, Console_error ''fetchData:'' error,
        ShowErrorMessage ''fetchData: The server is down or unreachable'']\<rparr>)"
  using assms
  by (simp add: search_try_def fetchData_def Let_def emit_def showErrorMessage_def)

lemma search_try_empty:
  "search_try (Fetch_resolves True (Json_resolves [])) val w =
     Inr (w\<lparr>trace := trace w @ [Fetch val]\<rparr>)"
  by (simp add: search_try_def fetchData_def fetchData_try_def Let_def emit_def)

text \<open>
  C3.  When the cache search for the trimmed value finds an entry, the handler
  ends normally without a fetch, without a merge into the cache and without a
  rebuild of the option list, and the cache is as before.
\<close>

theorem cache_hit_no_fetch:
  assumes "fst (CacheManagement_search toLowerCase (cache w) (trim value)) \<noteq> []"
  shows "\<exists>w'. search toLowerCase outcome value w = Inr w' \<and> cache w' = cache w \<and>
     filter is_fetch (calls_during w w') = [] \<and>
     filter is_merge (calls_during w w') = [] \<and>
     filter is_rebuild (calls_during w w') = []"
  using assms
  by (auto simp: search_def Let_def CacheManagement_search_def emit_def calls_during_def)

theorem cache_hit_no_fetch_witness:
  "fst (CacheManagement_search ascii_toLowerCase
      (cache \<lparr>cache = \<lparr>set_js = [ascii ''Go'', ascii ''Java'']\<rparr>, trace = []\<rparr>)
      (trim (ascii '' ja ''))) \<noteq> [] \<and>
   (\<exists>w'. search ascii_toLowerCase (Fetch_resolves True (Json_resolves [ascii ''Julia'']))
        (ascii '' ja '') \<lparr>cache = \<lparr>set_js = [ascii ''Go'', ascii ''Java'']\<rparr>, trace = []\<rparr> = Inr w' \<and>
      cache w' = \<lparr>set_js = [ascii ''Go'', ascii ''Java'']\<rparr> \<and>
      filter is_fetch
        (calls_during \<lparr>cache = \<lparr>set_js = [ascii ''Go'', ascii ''Java'']\<rparr>, trace = []\<rparr> w') = [])"
proof -
  let ?w = "\<lparr>cache = \<lparr>set_js = [ascii ''Go'', ascii ''Java'']\<rparr>, trace = []\<rparr>"
  have h: "fst (CacheManagement_search ascii_toLowerCase (cache ?w) (trim (ascii '' ja ''))) \<noteq> []"
    by code_simp
  have c: "cache ?w = \<lparr>set_js = [ascii ''Go'', ascii ''Java'']\<rparr>"
    by simp
  show ?thesis
    using h cache_hit_no_fetch [of ascii_toLowerCase ?w "ascii '' ja ''"
        "Fetch_resolves True (Json_resolves [ascii ''Julia''])"]
    unfolding c by blast
qed

text \<open>
  C5.  When the trimmed value is not empty, the cache has no match and the
  fetch fails (the call rejects, the status is not a success, or parsing
  throws), the handler ends normally, having issued the one fetch and shown the
  one message of \<open>fetchData\<close>; the cache is as before, nothing was merged and
  the option list was not rebuilt.
\<close>

theorem fetch_failure_isolated:
  assumes "trim value \<noteq> []"
    and "fst (CacheManagement_search toLowerCase (cache w) (trim value)) = []"
    and "fetch_fails outcome"
  shows "\<exists>w'. search toLowerCase outcome value w = Inr w' \<and>
     filter is_fetch (calls_during w w') = [Fetch (trim value)] \<and>
     messages (calls_during w w') = [''fetchData: The server is down or unreachable''] \<and>
     cache w' = cache w \<and>
     filter is_merge (calls_during w w') = [] \<and>
     filter is_rebuild (calls_during w w') = []"
proof -
  from assms(3) obtain error where "fetchData_try outcome = Inl error"
    using fetch_fails_try by blast
  then show ?thesis
    by (simp add: search_miss [OF assms(1,2)] search_try_failure emit_def calls_during_def
        messages_def List.map_filter_simps)
qed

theorem fetch_failure_isolated_witness:
  "trim (ascii ''ja'') \<noteq> [] \<and>
   fst (CacheManagement_search ascii_toLowerCase
      (cache \<lparr>cache = \<lparr>set_js = [ascii ''Go'']\<rparr>, trace = []\<rparr>) (trim (ascii ''ja''))) = [] \<and>
   fetch_fails (Fetch_resolves False (Json_resolves [ascii ''Java''])) \<and>
   (\<exists>w'. search ascii_toLowerCase (Fetch_resolves False (Json_resolves [ascii ''Java'']))
        (ascii ''ja'') \<lparr>cache = \<lparr>set_js = [ascii ''Go'']\<rparr>, trace = []\<rparr> = Inr w' \<and>
      messages (calls_during \<lparr>cache = \<lparr>set_js = [ascii ''Go'']\<rparr>, trace = []\<rparr> w') =
        [''fetchData: The server is down or unreachable''] \<and>
      cache w' = \<lparr>set_js = [ascii ''Go'']\<rparr>) \<and>
   fetch_fails (Fetch_rejects TypeError) \<and>
   (\<exists>w'. search ascii_toLowerCase (Fetch_rejects TypeError)
        (ascii ''ja'') \<lparr>cache = \<lparr>set_js = [ascii ''Go'']\<rparr>, trace = []\<rparr> = Inr w' \<and>
      messages (calls_during \<lparr>cache = \<lparr>set_js = [ascii ''Go'']\<rparr>, trace = []\<rparr> w') =
        [''fetchData: The server is down or unreachable''] \<and>
      cache w' = \<lparr>set_js = [ascii ''Go'']\<rparr>) \<and>
   fetch_fails (Fetch_resolves True (Json_rejects SyntaxError)) \<and>
   (\<exists>w'. search ascii_toLowerCase (Fetch_resolves True (Json_rejects SyntaxError))
        (ascii ''ja'') \<lparr>cache = \<lparr>set_js = [ascii ''Go'']\<rparr>, trace = []\<rparr> = Inr w' \<and>
      messages (calls_during \<lparr>cache = \<lparr>set_js = [ascii ''Go'']\<rparr>, trace = []\<rparr> w') =
        [''fetchData: The server is down or unreachable''] \<and>
      cache w' = \<lparr>set_js = [ascii ''Go'']\<rparr>)"
proof -
  let ?w = "\<lparr>cache = \<lparr>set_js = [ascii ''Go'']\<rparr>, trace = []\<rparr>"
  have h1: "trim (ascii ''ja'') \<noteq> []"
    by code_simp
  have h2: "fst (CacheManagement_search ascii_toLowerCase (cache ?w) (trim (ascii ''ja''))) = []"
    by code_simp
  have h3: "fetch_fails (Fetch_resolves False (Json_resolves [ascii ''Java'']))"
    "fetch_fails (Fetch_rejects TypeError)"
    "fetch_fails (Fetch_resolves True (Json_rejects SyntaxError))"
    by simp_all
  have c: "cache ?w = \<lparr>set_js = [ascii ''Go'']\<rparr>"
    by simp
  show ?thesis
    using h1 h2 h3
      fetch_failure_isolated [of "ascii ''ja''" ascii_toLowerCase ?w
        "Fetch_resolves False (Json_resolves [ascii ''Java''])"]
      fetch_failure_isolated [of "ascii ''ja''" ascii_toLowerCase ?w "Fetch_rejects TypeError"]
      fetch_failure_isolated [of "ascii ''ja''" ascii_toLowerCase ?w
        "Fetch_resolves True (Json_rejects SyntaxError)"]
    unfolding c by blast
qed

text \<open>
  C6.  When the trimmed value is not empty, the cache has no match and the
  fetch succeeds with an empty array, the handler ends normally with the cache
  as before; \<open>add\<close> was not called and the option list was not rebuilt.
\<close>

theorem empty_result_noop:
  assumes "trim value \<noteq> []"
    and "fst (CacheManagement_search toLowerCase (cache w) (trim value)) = []"
  shows "\<exists>w'. search toLowerCase (Fetch_resolves True (Json_resolves [])) value w = Inr w' \<and>
     cache w' = cache w \<and>
     filter is_merge (calls_during w w') = [] \<and>
     filter is_rebuild (calls_during w w') = []"
  by (simp add: search_miss [OF assms] search_try_empty emit_def calls_during_def)

theorem empty_result_noop_witness:
  "trim (ascii ''ja'') \<noteq> [] \<and>
   fst (CacheManagement_search ascii_toLowerCase
      (cache \<lparr>cache = \<lparr>set_js = [ascii ''Go'']\<rparr>, trace = []\<rparr>) (trim (ascii ''ja''))) = [] \<and>
   (\<exists>w'. search ascii_toLowerCase (Fetch_resolves True (Json_resolves [])) (ascii ''ja'')
        \<lparr>cache = \<lparr>set_js = [ascii ''Go'']\<rparr>, trace = []\<rparr> = Inr w' \<and>
      cache w' = \<lparr>set_js = [ascii ''Go'']\<rparr> \<and>
      filter is_rebuild (calls_during \<lparr>cache = \<lparr>set_js = [ascii ''Go'']\<rparr>, trace = []\<rparr> w') = [])"
proof -
  let ?w = "\<lparr>cache = \<lparr>set_js = [ascii ''Go'']\<rparr>, trace = []\<rparr>"
  have h1: "trim (ascii ''ja'') \<noteq> []"
    by code_simp
  have h2: "fst (CacheManagement_search ascii_toLowerCase (cache ?w) (trim (ascii ''ja''))) = []"
    by code_simp
  have c: "cache ?w = \<lparr>set_js = [ascii ''Go'']\<rparr>"
    by simp
  show ?thesis
    using h1 h2 empty_result_noop [of "ascii ''ja''" ascii_toLowerCase ?w]
    unfolding c by blast
qed

text \<open>
  C7.  When the value trims to the empty string, the handler ends normally and
  the page is as before: no call was made, so no cache search, no fetch and no
  message.
\<close>

theorem empty_query_noop:
  assumes "trim value = []"
  shows "\<exists>w'. search toLowerCase outcome value w = Inr w' \<and> w' = w \<and>
     filter is_cache_search (calls_during w w') = [] \<and>
     filter is_fetch (calls_during w w') = [] \<and>
     messages (calls_during w w') = []"
  using assms by (simp add: search_def calls_during_def messages_def List.map_filter_simps)

theorem empty_query_noop_witness:
  "trim (ascii ''   '') = [] \<and>
   search ascii_toLowerCase (Fetch_resolves True (Json_resolves [ascii ''Java'']))
      (ascii ''   '') \<lparr>cache = \<lparr>set_js = [ascii ''Go'']\<rparr>, trace = []\<rparr> =
     Inr \<lparr>cache = \<lparr>set_js = [ascii ''Go'']\<rparr>, trace = []\<rparr>"
proof -
  have h: "trim (ascii ''   '') = []"
    by code_simp
  show ?thesis
    using h empty_query_noop [of "ascii ''   ''" ascii_toLowerCase
        "Fetch_resolves True (Json_resolves [ascii ''Java''])"
        "\<lparr>cache = \<lparr>set_js = [ascii ''Go'']\<rparr>, trace = []\<rparr>"]
    by blast
qed

text \<open>
  C8.  When the fetch fails, \<open>fetchData\<close> returns the error object that its
  \<open>catch\<close> block caught.  Reading \<open>length\<close> from it yields \<open>undefined\<close>, the test
  \<open>names.length > 0\<close> is false, and the \<open>try\<close> block of \<open>search\<close> ends without
  a throw, without a merge and without a rebuild, the cache being as before.
\<close>

theorem failure_returns_error_object:
  assumes "fetch_fails outcome"
  shows "\<exists>error w1. fetchData_try outcome = Inl error \<and>
     fetchData outcome val w = (Returned_error error, w1) \<and>
     length_prop (Returned_error error) = None \<and>
     \<not> greater_than_zero (length_prop (Returned_error error)) \<and>
     search_try outcome val w = Inr w1 \<and>
     cache w1 = cache w \<and>
     filter is_merge (calls_during w w1) = [] \<and>
     filter is_rebuild (calls_during w w1) = []"
proof -
  from assms obtain error where "fetchData_try outcome = Inl error"
    using fetch_fails_try by blast
  then show ?thesis
    by (simp add: search_try_failure fetchData_def Let_def emit_def showErrorMessage_def
        calls_during_def)
qed

theorem failure_returns_error_object_witness:
  "fetch_fails (Fetch_resolves False (Json_resolves [ascii ''Java''])) \<and>
   (\<exists>error w1.
      fetchData_try (Fetch_resolves False (Json_resolves [ascii ''Java''])) = Inl error \<and>
      fetchData (Fetch_resolves False (Json_resolves [ascii ''Java''])) (ascii ''ja'')
        \<lparr>cache = constructor, trace = []\<rparr> = (Returned_error error, w1) \<and>
      search_try (Fetch_resolves False (Json_resolves [ascii ''Java''])) (ascii ''ja'')
        \<lparr>cache = constructor, trace = []\<rparr> = Inr w1)"
proof -
  have h: "fetch_fails (Fetch_resolves False (Json_resolves [ascii ''Java'']))"
    by simp
  show ?thesis
    using h failure_returns_error_object
      [of "Fetch_resolves False (Json_resolves [ascii ''Java''])" "ascii ''ja''"
        "\<lparr>cache = constructor, trace = []\<rparr>"]
    by blast
qed

section \<open>Debounced invocations\<close>

lemma sint32:
  "- 2147483648 \<le> ms \<Longrightarrow> ms < 2147483648 \<Longrightarrow> sint (word_of_int ms :: 32 word) = ms"
  by (simp add: sint_sbintrunc' signed_take_bit_int_eq_self)

lemma timer_delay_in_range: "0 \<le> ms \<Longrightarrow> ms < 2 ^ 31 \<Longrightarrow> timer_delay ms = nat ms"
  by (simp add: timer_delay_def sint32)

lemma advance_fields:
  "pending (advance t s) = filter (\<lambda>x. t < due x) (pending s)"
  "timeout (advance t s) = timeout s"
  "next_handle (advance t s) = next_handle s"
  "wait (advance t s) = wait s"
  by (simp_all add: advance_def)

lemma closure_inv_advance: "closure_inv s \<Longrightarrow> closure_inv (advance t s)"
  unfolding closure_inv_def advance_fields by auto

lemma clearTimeout_pending:
  "closure_inv s \<Longrightarrow> pending (clearTimeout (timeout s) s) = []"
  unfolding closure_inv_def by (cases "timeout s") auto

lemma clearTimeout_fields:
  "next_handle (clearTimeout h s) = next_handle s"
  "wait (clearTimeout h s) = wait s"
  "executed (clearTimeout h s) = executed s"
  by (cases h; simp)+

lemma debounced_fields:
  "pending (debounced t ev s) = pending (clearTimeout (timeout s) s) @
     [\<lparr>handle = next_handle s, due = t + timer_delay (wait s), event = ev\<rparr>]"
  "timeout (debounced t ev s) = Some (next_handle s)"
  "wait (debounced t ev s) = wait s"
  "executed (debounced t ev s) = executed s"
  by (simp_all add: debounced_def setTimeout_def Let_def clearTimeout_fields)

lemma debounced_after_advance:
  assumes "closure_inv s"
  shows "pending (debounced t ev (advance t s)) =
       [\<lparr>handle = next_handle s, due = t + timer_delay (wait s), event = ev\<rparr>]"
    and "timeout (debounced t ev (advance t s)) = Some (next_handle s)"
    and "wait (debounced t ev (advance t s)) = wait s"
    and "executed (debounced t ev (advance t s)) = executed (advance t s)"
  using clearTimeout_pending [OF closure_inv_advance [OF assms], of t]
  by (simp_all add: debounced_fields advance_fields)

lemma closure_inv_debounced: "closure_inv s \<Longrightarrow> closure_inv (debounced t ev (advance t s))"
  by (simp add: closure_inv_def [of "debounced t ev (advance t s)"] debounced_after_advance)

lemma closure_inv_invocations: "closure_inv s \<Longrightarrow> closure_inv (invocations hs s)"
  by (induction hs arbitrary: s) (auto simp: closure_inv_debounced)

lemma wait_invocations: "closure_inv s \<Longrightarrow> wait (invocations hs s) = wait s"
  by (induction hs arbitrary: s) (auto simp: closure_inv_debounced debounced_after_advance)

lemma invocations_append: "invocations (hs @ cs) s = invocations cs (invocations hs s)"
  by (induction hs arbitrary: s) auto

lemma burst_invariant:
  "pending s = [x] \<Longrightarrow> timeout s = Some (handle x) \<Longrightarrow> wait s = ms \<Longrightarrow>
   0 \<le> ms \<Longrightarrow> ms < 2 ^ 31 \<Longrightarrow>
   due x = t0 + nat ms \<Longrightarrow> event x = e0 \<Longrightarrow> burst ms ((t0, e0) # cs) \<Longrightarrow>
   \<exists>y. pending (invocations cs s) = [y] \<and>
       executed (invocations cs s) = executed s \<and>
       due y = fst (last ((t0, e0) # cs)) + nat ms \<and>
       event y = snd (last ((t0, e0) # cs))"
proof (induction cs arbitrary: s x t0 e0)
  case Nil
  then show ?case by simp
next
  case (Cons c cs)
  obtain t1 e1 where c: "c = (t1, e1)" by (cases c)
  from Cons.prems c have t: "t0 \<le> t1" "int t1 < int t0 + ms" and b: "burst ms ((t1, e1) # cs)"
    by simp_all
  let ?s = "debounced t1 e1 (advance t1 s)"
  let ?y = "\<lparr>handle = next_handle s, due = t1 + nat ms, event = e1\<rparr>"
  have inv: "closure_inv s"
    using Cons.prems(1,2) by (simp add: closure_inv_def)
  have adv: "advance t1 s = s"
    using Cons.prems(1,4,6) t by (simp add: advance_def)
  have d: "timer_delay ms = nat ms"
    using Cons.prems(4,5) by (rule timer_delay_in_range)
  have p: "pending ?s = [?y]" "timeout ?s = Some (handle ?y)" "wait ?s = ms"
    and e: "executed ?s = executed s"
    using debounced_after_advance [OF inv, of t1 e1]
    by (simp_all add: adv Cons.prems(3) d)
  have "\<exists>y. pending (invocations cs ?s) = [y] \<and>
       executed (invocations cs ?s) = executed ?s \<and>
       due y = fst (last ((t1, e1) # cs)) + nat ms \<and>
       event y = snd (last ((t1, e1) # cs))"
    by (rule Cons.IH [OF p Cons.prems(4,5) _ _ b]) simp_all
  then show ?case by (simp add: c e)
qed

lemma burst_pending:
  assumes "closure_inv s" and "wait s = ms" and "0 \<le> ms" and "ms < 2 ^ 31"
    and "burst ms ((t0, e0) # rest)"
  shows "\<exists>y. pending (invocations ((t0, e0) # rest) s) = [y] \<and>
       executed (invocations ((t0, e0) # rest) s) = executed (advance t0 s) \<and>
       due y = fst (last ((t0, e0) # rest)) + nat ms \<and>
       event y = snd (last ((t0, e0) # rest))"
proof -
  let ?s = "debounced t0 e0 (advance t0 s)"
  let ?y = "\<lparr>handle = next_handle s, due = t0 + nat ms, event = e0\<rparr>"
  have d: "timer_delay ms = nat ms"
    using assms(3,4) by (rule timer_delay_in_range)
  have p: "pending ?s = [?y]" "timeout ?s = Some (handle ?y)" "wait ?s = ms"
    and e: "executed ?s = executed (advance t0 s)"
    by (simp_all add: debounced_after_advance [OF assms(1)] assms(2) d)
  have "\<exists>y. pending (invocations rest ?s) = [y] \<and>
       executed (invocations rest ?s) = executed ?s \<and>
       due y = fst (last ((t0, e0) # rest)) + nat ms \<and>
       event y = snd (last ((t0, e0) # rest))"
    by (rule burst_invariant [OF p assms(3,4) _ _ assms(5)]) simp_all
  then show ?thesis
    by (simp add: e)
qed

lemma closure_inv_debounce: "closure_inv (debounce w)"
  by (simp add: closure_inv_def debounce_def)

lemma timer_delay_250: "timer_delay 250 = 250"
  by (simp add: timer_delay_in_range)

lemma timer_delay_350: "timer_delay 350 = 350"
  by (simp add: timer_delay_in_range)

lemma timer_delay_2_31: "timer_delay 2147483648 = 0"
  by code_simp

text \<open>
  C4, as amended.  Let the wait be an integer from 0 to \<open>2 ^ 31 - 1\<close>: the
  argument given to \<open>debounce\<close>, or 250 when none is given.  After any earlier
  invocations of the debounced function, let a burst of invocations follow,
  each less than the wait after the one before.  Then exactly one callback is
  scheduled: the one of the last invocation of the burst, due the wait after
  it, the earlier ones having been cancelled.  Up to any time \<open>T\<close> the handler
  has run, besides its runs before the burst began, once when \<open>T\<close> has reached
  that due time, at that time and with the event of the last invocation, and
  not at all before.
\<close>

theorem debounce_burst_once:
  assumes "w = None \<and> ms = 250 \<or> w = Some ms"
    and "0 \<le> ms" and "ms < 2 ^ 31"
    and "burst ms ((t0, e0) # rest)"
  shows "map (\<lambda>t. (due t, event t)) (pending (invocations (hs @ (t0, e0) # rest) (debounce w))) =
           [(fst (last ((t0, e0) # rest)) + nat ms, snd (last ((t0, e0) # rest)))] \<and>
         executed (advance T (invocations (hs @ (t0, e0) # rest) (debounce w))) =
           executed (advance t0 (invocations hs (debounce w))) @
           (if fst (last ((t0, e0) # rest)) + nat ms \<le> T
            then [(fst (last ((t0, e0) # rest)) + nat ms, snd (last ((t0, e0) # rest)))] else [])"
proof -
  let ?s = "invocations hs (debounce w)"
  have inv: "closure_inv ?s"
    by (simp add: closure_inv_invocations closure_inv_debounce)
  have "wait (debounce w) = ms"
    using assms(1) by (auto simp: debounce_def)
  then have w: "wait ?s = ms"
    by (simp add: wait_invocations closure_inv_debounce)
  define u where "u = invocations ((t0, e0) # rest) ?s"
  obtain y where y: "pending u = [y]" "executed u = executed (advance t0 ?s)"
      "due y = fst (last ((t0, e0) # rest)) + nat ms" "event y = snd (last ((t0, e0) # rest))"
    using burst_pending [OF inv w assms(2,3,4)] unfolding u_def by blast
  have "invocations (hs @ (t0, e0) # rest) (debounce w) = u"
    unfolding u_def by (rule invocations_append)
  moreover have "map (\<lambda>t. (due t, event t)) (pending u) =
      [(fst (last ((t0, e0) # rest)) + nat ms, snd (last ((t0, e0) # rest)))]"
    by (simp add: y)
  moreover have "executed (advance T u) = executed (advance t0 ?s) @
      (if fst (last ((t0, e0) # rest)) + nat ms \<le> T
       then [(fst (last ((t0, e0) # rest)) + nat ms, snd (last ((t0, e0) # rest)))] else [])"
    by (simp add: advance_def [of T u] y)
  ultimately show ?thesis
    by (simp only:)
qed


theorem debounce_burst_once_witness:
  "(0 :: int) \<le> 250 \<and> (250 :: int) < 2 ^ 31 \<and>
   burst 250 [(0, ''a''), (50, ''b''), (100, ''c'')] \<and>
   executed (advance 350 (invocations [(0, ''a''), (50, ''b''), (100, ''c'')] (debounce None))) =
     [(350, ''c'')] \<and>
   executed (advance 349 (invocations [(0, ''a''), (50, ''b''), (100, ''c'')] (debounce None))) = [] \<and>
   burst 250 [(1000, ''a''), (1050, ''b''), (1100, ''c'')] \<and>
   executed (advance 2000
      (invocations ([(0, ''x'')] @ [(1000, ''a''), (1050, ''b''), (1100, ''c'')]) (debounce None))) =
     [(250, ''x''), (1350, ''c'')] \<and>
   burst 350 [(1000, ''a''), (1300, ''b'')] \<and>
   executed (advance 2000
      (invocations ([(0, ''x'')] @ [(1000, ''a''), (1300, ''b'')]) (debounce (Some 350)))) =
     [(350, ''x''), (1650, ''b'')]"
proof -
  have h1: "None = (None :: int option) \<and> (250 :: int) = 250 \<or> None = Some (250 :: int)"
    and h2: "(0 :: int) \<le> 250" and h3: "(250 :: int) < 2 ^ 31"
    by simp_all
  have k1: "Some 350 = (None :: int option) \<and> (350 :: int) = 250 \<or> Some 350 = Some (350 :: int)"
    and k2: "(0 :: int) \<le> 350" and k3: "(350 :: int) < 2 ^ 31"
    by simp_all
  have b1: "burst 250 [(0, ''a''), (50, ''b''), (100, ''c'')]"
    and b2: "burst 250 [(1000, ''a''), (1050, ''b''), (1100, ''c'')]"
    and b3: "burst 350 [(1000, ''a''), (1300, ''b'')]"
    by simp_all
  have e0: "executed (advance 0 (invocations [] (debounce None :: string debounce_state))) = []"
    by (simp add: advance_def debounce_def)
  have e1: "executed (advance 1000 (invocations [(0, ''x'')] (debounce None))) = [(250, ''x'')]"
    by (simp add: advance_def debounce_def debounced_def setTimeout_def timer_delay_250)
  have e2: "executed (advance 1000 (invocations [(0, ''x'')] (debounce (Some 350)))) = [(350, ''x'')]"
    by (simp add: advance_def debounce_def debounced_def setTimeout_def timer_delay_350)
  show ?thesis
    using h2 h3 b1 b2 b3 e0 e1 e2
      debounce_burst_once [OF h1 h2 h3 b1, of "[]" 350]
      debounce_burst_once [OF h1 h2 h3 b1, of "[]" 349]
      debounce_burst_once [OF h1 h2 h3 b2, of "[(0, ''x'')]" 2000]
      debounce_burst_once [OF k1 k2 k3 b3, of "[(0, ''x'')]" 2000]
    by simp
qed

text \<open>
  C4 as first stated, for every wait, fails at the wait \<open>2 ^ 31\<close>: taken as a
  signed 32-bit integer the delay is negative and counts as zero, every
  callback is due at once, and by the time the single execution is expected
  the handler has run after each of the three invocations of the burst.
\<close>

theorem debounce_large_wait_counterexample:
  "burst 2147483648 [(0, ''a''), (50, ''b''), (100, ''c'')] \<and>
   executed (advance (100 + 2147483648)
      (invocations [(0, ''a''), (50, ''b''), (100, ''c'')] (debounce (Some 2147483648)))) =
     [(0, ''a''), (50, ''b''), (100, ''c'')]"
  by (simp add: advance_def debounce_def debounced_def setTimeout_def timer_delay_2_31)

end
